theory Spec2Isabelle
  imports Main
begin

section \<open>Python strings and the built-ins the program calls\<close>

text \<open>
  A Python \<open>str\<close> is modelled as a list of code points below 256 (type \<open>char\<close>,
  read as the code point \<open>of_char c\<close>). On this range the built-ins the program
  calls behave as follows (CPython 3.12):
  \<^item> \<open>str.isdigit\<close> holds for \<open>0\<close>..\<open>9\<close> and for the superscripts U+00B2, U+00B3, U+00B9;
  \<^item> \<open>int(s)\<close> reads only \<open>0\<close>..\<open>9\<close> as digits, strips the white space
    U+0009..U+000D, U+0020, U+0085, U+00A0 at both ends, takes one optional sign and
    allows single underscores between digits; anything else raises \<open>ValueError\<close>.
  CPython's limit on the length of a decimal conversion (4300 digits) is far above the
  length of a file name and is not modelled.
\<close>

definition isdigit :: "char \<Rightarrow> bool" where
  "isdigit c =
     (let n = (of_char c :: nat)
      in (48 \<le> n \<and> n \<le> 57) \<or> n = 178 \<or> n = 179 \<or> n = 185)"

definition isdecimal :: "char \<Rightarrow> bool" where
  "isdecimal c = (let n = (of_char c :: nat) in 48 \<le> n \<and> n \<le> 57)"

definition int_space :: "char \<Rightarrow> bool" where
  "int_space c =
     (let n = (of_char c :: nat)
      in (9 \<le> n \<and> n \<le> 13) \<or> n = 32 \<or> n = 133 \<or> n = 160)"

definition int_body_char :: "char \<Rightarrow> bool" where
  "int_body_char c = (isdecimal c \<or> c = CHR ''_'')"

text \<open>
  The digits of a literal, as CPython scans them: an underscore may not come first,
  last, or directly after another underscore, and there is at least one digit.
\<close>

fun scan_underscores :: "char \<Rightarrow> string \<Rightarrow> bool" where
  "scan_underscores prev [] = (prev \<noteq> CHR ''_'')"
| "scan_underscores prev (c # cs) =
     (if c = CHR ''_'' \<and> prev = CHR ''_'' then False else scan_underscores c cs)"

definition well_grouped :: "string \<Rightarrow> bool" where
  "well_grouped body =
     (case body of [] \<Rightarrow> False
      | c # _ \<Rightarrow> c \<noteq> CHR ''_'' \<and> scan_underscores (CHR 0x00) body)"

fun digits_value :: "nat \<Rightarrow> string \<Rightarrow> nat" where
  "digits_value acc [] = acc"
| "digits_value acc (c # cs) =
     (if c = CHR ''_'' then digits_value acc cs
      else digits_value (acc * 10 + (of_char c - 48)) cs)"

text \<open>\<open>int(s)\<close>: \<open>None\<close> stands for \<open>ValueError\<close>.\<close>

definition py_int :: "string \<Rightarrow> int option" where
  "py_int s =
     (let s1 = dropWhile int_space s;
          neg = (case s1 of [] \<Rightarrow> False | c # _ \<Rightarrow> c = CHR ''-'');
          s2 = (case s1 of [] \<Rightarrow> []
                | c # r \<Rightarrow> if c = CHR ''-'' \<or> c = CHR ''+'' then r else s1);
          body = takeWhile int_body_char s2;
          rest = dropWhile int_body_char s2
      in if well_grouped body \<and> list_all int_space rest
         then Some (if neg then - int (digits_value 0 body) else int (digits_value 0 body))
         else None)"

text \<open>\<open>s.startswith(t)\<close>, \<open>s.index(t)\<close> (\<open>None\<close> stands for \<open>ValueError\<close>)
  and \<open>s.rfind(c)\<close> (\<open>-1\<close> when \<open>c\<close> does not occur).\<close>

definition startswith :: "string \<Rightarrow> string \<Rightarrow> bool" where
  "startswith s t = (take (length t) s = t)"

fun str_index :: "string \<Rightarrow> string \<Rightarrow> nat option" where
  "str_index [] t = (if t = [] then Some 0 else None)"
| "str_index (c # cs) t =
     (if startswith (c # cs) t then Some 0 else map_option Suc (str_index cs t))"

fun rfind :: "string \<Rightarrow> char \<Rightarrow> int" where
  "rfind [] x = - 1"
| "rfind (c # cs) x =
     (let r = rfind cs x
      in if 0 \<le> r then r + 1 else if c = x then 0 else - 1)"

text \<open>\<open>"{:02d}".format(n)\<close>: the decimal digits of \<open>n\<close>, padded with zeros to two
  characters; a minus sign counts as one of the two.\<close>

definition digit_char :: "nat \<Rightarrow> char" where
  "digit_char d = char_of (48 + d)"

function decimal :: "nat \<Rightarrow> string" where
  "decimal n = (if n < 10 then [digit_char n] else decimal (n div 10) @ [digit_char (n mod 10)])"
  by pat_completeness auto
termination
  by (relation "measure (\<lambda>n. n)") auto

definition format_02d :: "int \<Rightarrow> string" where
  "format_02d n =
     (if n < 0 then CHR ''-'' # decimal (nat (- n))
      else replicate (2 - length (decimal (nat n))) (CHR ''0'') @ decimal (nat n))"

section \<open>Paths\<close>

text \<open>
  A \<open>pathlib.Path\<close> is the directory it lies in and its final component. \<open>stem\<close> and
  \<open>suffix\<close> split the final component at its last dot, unless that dot is the first
  or the last character (pathlib of Python 3.12 and 3.13).
\<close>

datatype path = Path (path_parent: string) (path_name: string)

definition path_suffix :: "path \<Rightarrow> string" where
  "path_suffix p =
     (let nm = path_name p; i = rfind nm (CHR ''.'')
      in if 0 < i \<and> i < int (length nm) - 1 then drop (nat i) nm else [])"

definition path_stem :: "path \<Rightarrow> string" where
  "path_stem p =
     (let nm = path_name p; i = rfind nm (CHR ''.'')
      in if 0 < i \<and> i < int (length nm) - 1 then take (nat i) nm else nm)"

section \<open>Index extraction and naming (core.py)\<close>

text \<open>
  \<open>SystemExit n\<close> is \<open>sys.exit(n)\<close>, which \<open>error_exit\<close> calls after printing its
  message; \<open>ValueError\<close> and \<open>OSError\<close> are the exceptions of pathlib and shutil
  that the program does not catch.
\<close>

datatype error = SystemExit nat | ValueError | OSError

definition error_exit :: "error" where
  "error_exit = SystemExit 1"

text \<open>The first loop of \<open>find_index\<close>: drop characters while the first is no digit.\<close>

fun skip_non_digits :: "string \<Rightarrow> string" where
  "skip_non_digits [] = []"
| "skip_non_digits (c # cs) = (if \<not> isdigit c then skip_non_digits cs else c # cs)"

text \<open>The second loop: the value of \<open>i\<close> when it ends.\<close>

fun digit_run :: "string \<Rightarrow> nat" where
  "digit_run [] = 0"
| "digit_run (c # cs) = (if isdigit c then Suc (digit_run cs) else 0)"

text \<open>The format is \<open>None\<close>, or a string; \<open>None\<close> and the empty string mean no format.\<close>

definition find_index :: "string \<Rightarrow> string option \<Rightarrow> error + int" where
  "find_index filename format =
     (case (case format of
              None \<Rightarrow> Inr (skip_non_digits filename)
            | Some fmt \<Rightarrow>
                if fmt \<noteq> [] then
                  (case str_index fmt ''{}'' of
                     None \<Rightarrow> Inl error_exit
                   | Some k \<Rightarrow> Inr (drop k filename))
                else Inr (skip_non_digits filename)) of
        Inl e \<Rightarrow> Inl e
      | Inr fn \<Rightarrow>
          if length fn = 0 then Inr (- 1)
          else (case py_int (take (digit_run fn) fn) of
                  None \<Rightarrow> Inr (- 1)
                | Some n \<Rightarrow> Inr n))"

definition is_formatted :: "path \<Rightarrow> string \<Rightarrow> bool" where
  "is_formatted filepath prefix =
     (if \<not> startswith (path_stem filepath) prefix then False
      else (case py_int (drop (length prefix) (path_stem filepath)) of
              Some _ \<Rightarrow> True
            | None \<Rightarrow> False))"

text \<open>The empty string says that no index was found.\<close>

definition formatted_filename :: "path \<Rightarrow> string \<Rightarrow> string option \<Rightarrow> error + string" where
  "formatted_filename p prefix format =
     (case find_index (path_name p) format of
        Inl e \<Rightarrow> Inl e
      | Inr index \<Rightarrow>
          if index \<noteq> - 1 then Inr (prefix @ format_02d index @ path_suffix p)
          else Inr [])"

section \<open>The file system\<close>

text \<open>
  The state is the list of the entries of the file system, in the order in which a
  directory listing yields them. An entry is a regular file with its contents, or a
  directory. \<open>path_str\<close> is the path written out; the children of a directory are the
  entries whose parent is that string.
\<close>

datatype node = File string | Dir

type_synonym filesystem = "(path \<times> node) list"

definition path_str :: "path \<Rightarrow> string" where
  "path_str p = path_parent p @ ''/'' @ path_name p"

definition path_exists :: "filesystem \<Rightarrow> path \<Rightarrow> bool" where
  "path_exists fs p = (map_of fs p \<noteq> None)"

definition is_dir :: "filesystem \<Rightarrow> path \<Rightarrow> bool" where
  "is_dir fs p = (map_of fs p = Some Dir)"

definition iterdir :: "filesystem \<Rightarrow> path \<Rightarrow> path list" where
  "iterdir fs d = filter (\<lambda>f. path_parent f = path_str d) (map fst fs)"

text \<open>\<open>p.with_name(nm)\<close> raises \<open>ValueError\<close> when \<open>p\<close> has no name or \<open>nm\<close> is
  empty, a dot, or holds a separator. \<open>d.joinpath(nm)\<close> is kept as one component
  below \<open>d\<close>, also when \<open>nm\<close> holds a separator.\<close>

definition with_name :: "path \<Rightarrow> string \<Rightarrow> error + path" where
  "with_name p nm =
     (if path_name p = [] \<or> nm = [] \<or> nm = ''.'' \<or> CHR ''/'' \<in> set nm then Inl ValueError
      else Inr (Path (path_parent p) nm))"

definition joinpath :: "path \<Rightarrow> string \<Rightarrow> path" where
  "joinpath d nm = Path (path_str d) nm"

text \<open>\<open>p.rename(q)\<close> and \<open>shutil.copy(p, q)\<close>: both replace what is at \<open>q\<close>, and
  raise \<open>OSError\<close> when \<open>p\<close> is missing (or, for the copy, is a directory).\<close>

definition fs_rename :: "filesystem \<Rightarrow> path \<Rightarrow> path \<Rightarrow> error + filesystem" where
  "fs_rename fs p q =
     (if path_exists fs p
      then Inr (map (\<lambda>(k, v). if k = p then (q, v) else (k, v))
                 (filter (\<lambda>(k, v). k \<noteq> q) fs))
      else Inl OSError)"

definition shutil_copy :: "filesystem \<Rightarrow> path \<Rightarrow> path \<Rightarrow> error + filesystem" where
  "shutil_copy fs p q =
     (case map_of fs p of
        Some (File c) \<Rightarrow> Inr (filter (\<lambda>(k, v). k \<noteq> q) fs @ [(q, File c)])
      | _ \<Rightarrow> Inl OSError)"

section \<open>The transfer engine (core.py)\<close>

text \<open>
  Every operation returns what it returns or raises, and the file system it leaves.
\<close>

definition to_process :: "filesystem \<Rightarrow> path \<Rightarrow> path list" where
  "to_process fs d =
     filter (\<lambda>f. \<not> (is_dir fs f \<or> startswith (path_name f) ''.'')) (iterdir fs d)"

definition rename_file ::
  "path \<Rightarrow> string \<Rightarrow> string option \<Rightarrow> filesystem \<Rightarrow> (error + bool) \<times> filesystem" where
  "rename_file p prefix format fs =
     (if is_formatted p prefix then (Inr False, fs)
      else (case formatted_filename p prefix format of
              Inl e \<Rightarrow> (Inl e, fs)
            | Inr nm \<Rightarrow>
                if nm = [] then (Inr False, fs)
                else (case with_name p nm of
                        Inl e \<Rightarrow> (Inl e, fs)
                      | Inr new_path \<Rightarrow>
                          if new_path \<noteq> p \<and> \<not> path_exists fs new_path
                          then (case fs_rename fs p new_path of
                                  Inl e \<Rightarrow> (Inl e, fs)
                                | Inr fs' \<Rightarrow> (Inr True, fs'))
                          else (Inr False, fs))))"

text \<open>The loop of \<open>rename_all_files_in_dir\<close>, with its two counters.\<close>

fun rename_loop ::
  "path list \<Rightarrow> string \<Rightarrow> string option \<Rightarrow> nat \<Rightarrow> nat \<Rightarrow> filesystem
     \<Rightarrow> (error + nat \<times> nat \<times> nat) \<times> filesystem" where
  "rename_loop [] prefix format renamed_count unrenamed_count fs =
     (Inr (renamed_count, unrenamed_count, renamed_count + unrenamed_count), fs)"
| "rename_loop (filepath # rest) prefix format renamed_count unrenamed_count fs =
     (case rename_file filepath prefix format fs of
        (Inl e, fs') \<Rightarrow> (Inl e, fs')
      | (Inr b, fs') \<Rightarrow>
          if b then rename_loop rest prefix format (renamed_count + 1) unrenamed_count fs'
          else rename_loop rest prefix format renamed_count (unrenamed_count + 1) fs')"

definition rename_all_files_in_dir ::
  "path \<Rightarrow> string \<Rightarrow> string option \<Rightarrow> filesystem
     \<Rightarrow> (error + nat \<times> nat \<times> nat) \<times> filesystem" where
  "rename_all_files_in_dir d prefix format fs =
     rename_loop (to_process fs d) prefix format 0 0 fs"

definition copy_file ::
  "path \<Rightarrow> path \<Rightarrow> string \<Rightarrow> string option \<Rightarrow> filesystem \<Rightarrow> (error + bool) \<times> filesystem" where
  "copy_file src dest prefix format fs =
     (case (if \<not> is_formatted src prefix then formatted_filename src prefix format
            else Inr (path_name src)) of
        Inl e \<Rightarrow> (Inl e, fs)
      | Inr nm \<Rightarrow>
          if \<not> is_formatted src prefix \<and> nm = [] then (Inr False, fs)
          else if \<not> path_exists fs (joinpath dest nm)
          then (case shutil_copy fs src (joinpath dest nm) of
                  Inl e \<Rightarrow> (Inl e, fs)
                | Inr fs' \<Rightarrow> (Inr True, fs'))
          else (Inr False, fs))"

fun copy_loop ::
  "path list \<Rightarrow> path \<Rightarrow> string \<Rightarrow> string option \<Rightarrow> nat \<Rightarrow> nat \<Rightarrow> filesystem
     \<Rightarrow> (error + nat \<times> nat \<times> nat) \<times> filesystem" where
  "copy_loop [] dest prefix format copied_count uncopied_count fs =
     (Inr (copied_count, uncopied_count, copied_count + uncopied_count), fs)"
| "copy_loop (filepath # rest) dest prefix format copied_count uncopied_count fs =
     (case copy_file filepath dest prefix format fs of
        (Inl e, fs') \<Rightarrow> (Inl e, fs')
      | (Inr b, fs') \<Rightarrow>
          if b then copy_loop rest dest prefix format (copied_count + 1) uncopied_count fs'
          else copy_loop rest dest prefix format copied_count (uncopied_count + 1) fs')"

definition copy_all_files_in_dir ::
  "path \<Rightarrow> path \<Rightarrow> string \<Rightarrow> string option \<Rightarrow> filesystem
     \<Rightarrow> (error + nat \<times> nat \<times> nat) \<times> filesystem" where
  "copy_all_files_in_dir src dest prefix format fs =
     copy_loop (to_process fs src) dest prefix format 0 0 fs"

section \<open>Example file systems\<close>

text \<open>The directory of the specification's scenario: three candidates, a hidden file and
  a sub-directory.\<close>

definition scan_dir :: filesystem where
  "scan_dir =
     [(Path ''/s'' ''img003.png'', File ''a''), (Path ''/s'' ''img7.png'', File ''b''),
      (Path ''/s'' ''notes.txt'', File ''c''), (Path ''/s'' ''.hidden'', File ''d''),
      (Path ''/s'' ''sub'', Dir)]"

text \<open>A source file and a destination that already holds a file under the target name.\<close>

definition taken_dir :: filesystem where
  "taken_dir =
     [(Path ''/s'' ''img7.png'', File ''new''), (Path ''/t'' ''photo07.png'', File ''old'')]"

text \<open>A directory whose only file is already formatted under the prefix \<open>p\<close>, and one
  with a second file that is not.\<close>

definition done_dir :: filesystem where
  "done_dir = [(Path ''/s'' ''p01.jpg'', File ''A'')]"

definition abort_dir :: filesystem where
  "abort_dir = [(Path ''/s'' ''p01.jpg'', File ''A''), (Path ''/s'' ''x2.jpg'', File ''B'')]"

section \<open>Characters, loops and integer literals\<close>

lemma isdecimal_facts:
  assumes "isdecimal c"
  shows "isdigit c" "\<not> int_space c" "c \<noteq> CHR ''_''" "c \<noteq> CHR ''-''" "c \<noteq> CHR ''+''"
    "int_body_char c"
  using assms by (auto simp: isdecimal_def isdigit_def int_space_def int_body_char_def Let_def)

lemma isdigit_facts:
  assumes "isdigit c"
  shows "\<not> int_space c" "c \<noteq> CHR ''-''" "c \<noteq> CHR ''+''"
  using assms by (auto simp: isdigit_def int_space_def Let_def)

lemma int_space_facts:
  assumes "int_space c"
  shows "\<not> int_body_char c" "c \<noteq> CHR ''-''" "c \<noteq> CHR ''+''"
  using assms by (auto simp: isdecimal_def int_space_def int_body_char_def Let_def)

lemma py_int_Nil: "py_int [] = None"
  by (simp add: py_int_def well_grouped_def)


lemma digit_run_takeWhile: "take (digit_run s) s = takeWhile isdigit s"
  by (induction s) auto

lemma scan_underscores_decimal:
  "list_all isdecimal ds \<Longrightarrow> prev \<noteq> CHR ''_'' \<Longrightarrow> scan_underscores prev ds"
  by (induction ds arbitrary: prev) (auto dest: isdecimal_facts(3))

lemma dropWhile_all: "list_all P ws \<Longrightarrow> \<not> P c \<Longrightarrow> dropWhile P (ws @ c # cs) = c # cs"
  by (induction ws) auto

lemma takeWhile_all: "list_all P xs \<Longrightarrow> list_all (\<lambda>c. \<not> P c) ys \<Longrightarrow> takeWhile P (xs @ ys) = xs"
  by (induction xs) (auto simp: takeWhile_eq_Nil_iff list_all_iff)

lemma dropWhile_all2: "list_all P xs \<Longrightarrow> list_all (\<lambda>c. \<not> P c) ys \<Longrightarrow> dropWhile P (xs @ ys) = ys"
  by (induction xs) (auto simp: dropWhile_eq_self_iff list_all_iff intro: hd_in_set)

text \<open>What \<open>py_int\<close> accepts: spaces, an optional sign, a well grouped body, spaces.\<close>

lemma py_int_accepts:
  assumes ws1: "list_all int_space ws1" and ws2: "list_all int_space ws2"
    and sg: "sg = [] \<or> sg = ''+'' \<or> sg = ''-''"
    and body: "list_all int_body_char body" "well_grouped body"
  shows "py_int (ws1 @ sg @ body @ ws2) =
           Some (if sg = ''-'' then - int (digits_value 0 body) else int (digits_value 0 body))"
proof -
  from body(2) obtain b bs where b: "body = b # bs" "b \<noteq> CHR ''_''"
    by (cases body) (auto simp: well_grouped_def)
  with body(1) have bd: "isdecimal b" by (simp add: int_body_char_def)
  have nb: "list_all (\<lambda>c. \<not> int_body_char c) ws2"
    using ws2 by (induction ws2) (auto dest: int_space_facts(1))
  have tk: "takeWhile int_body_char (body @ ws2) = body"
    using body(1) nb by (rule takeWhile_all)
  have dr: "dropWhile int_body_char (body @ ws2) = ws2"
    using body(1) nb by (rule dropWhile_all2)
  from sg show ?thesis
  proof (elim disjE)
    assume s: "sg = []"
    have "dropWhile int_space (ws1 @ b # bs @ ws2) = b # bs @ ws2"
      using ws1 isdecimal_facts(2) [OF bd] by (rule dropWhile_all)
    then show ?thesis
      using s b tk dr body(2) ws2 isdecimal_facts(4,5) [OF bd]
      by (simp add: py_int_def)
  next
    assume s: "sg = ''+''"
    have "dropWhile int_space (ws1 @ CHR ''+'' # body @ ws2) = CHR ''+'' # body @ ws2"
      using ws1 by (rule dropWhile_all) (simp add: int_space_def)
    then show ?thesis
      using s tk dr body(2) ws2 by (simp add: py_int_def)
  next
    assume s: "sg = ''-''"
    have "dropWhile int_space (ws1 @ CHR ''-'' # body @ ws2) = CHR ''-'' # body @ ws2"
      using ws1 by (rule dropWhile_all) (simp add: int_space_def)
    then show ?thesis
      using s tk dr body(2) ws2 by (simp add: py_int_def)
  qed
qed

lemma well_grouped_decimal: "list_all isdecimal ds \<Longrightarrow> ds \<noteq> [] \<Longrightarrow> well_grouped ds"
  by (cases ds) (auto simp: well_grouped_def dest: isdecimal_facts(3) intro: scan_underscores_decimal)

lemma body_decimal: "list_all isdecimal ds \<Longrightarrow> list_all int_body_char ds"
  by (induction ds) (auto simp: int_body_char_def)

lemma py_int_decimal:
  assumes "list_all isdecimal ds" "ds \<noteq> []"
  shows "py_int ds = Some (int (digits_value 0 ds))"
  using py_int_accepts [of "[]" "[]" "[]" ds] assms
  by (simp add: well_grouped_decimal body_decimal)

section \<open>Decimal rendering and reading back\<close>

declare decimal.simps [simp del]

lemma of_char_digit_char: "d < 10 \<Longrightarrow> of_char (digit_char d) = 48 + d"
  by (simp add: digit_char_def)

lemma isdecimal_digit_char: "d < 10 \<Longrightarrow> isdecimal (digit_char d)"
  by (simp add: isdecimal_def of_char_digit_char)

lemma decimal_isdecimal: "list_all isdecimal (decimal n)"
proof (induction n rule: decimal.induct)
  case (1 n)
  show ?case
  proof (cases "n < 10")
    case True
    then show ?thesis by (subst decimal.simps) (simp add: isdecimal_digit_char)
  next
    case False
    with 1 show ?thesis by (subst decimal.simps) (simp add: isdecimal_digit_char)
  qed
qed

lemma decimal_not_Nil: "decimal n \<noteq> []"
  by (subst decimal.simps) simp

lemma digits_value_append:
  "digits_value acc (xs @ ys) = digits_value (digits_value acc xs) ys"
  by (induction xs arbitrary: acc) auto

lemma digit_char_0: "digit_char 0 = CHR ''0''"
  by code_simp

lemma digits_value_digit:
  assumes "d < 10"
  shows "digits_value acc [digit_char d] = acc * 10 + d"
proof -
  from assms have "digit_char d \<noteq> CHR ''_''"
    by (intro isdecimal_facts(3) isdecimal_digit_char)
  with assms show ?thesis by (simp add: of_char_digit_char)
qed

lemma length_decimal_small: "n < 10 \<Longrightarrow> decimal n = [digit_char n]"
  by (subst decimal.simps) simp

lemma decimal_step: "\<not> n < 10 \<Longrightarrow> decimal n = decimal (n div 10) @ [digit_char (n mod 10)]"
  by (subst decimal.simps) simp

lemma digits_value_decimal: "digits_value 0 (decimal n) = n"
proof (induction n rule: decimal.induct)
  case (1 n)
  show ?case
  proof (cases "n < 10")
    case True
    then show ?thesis by (simp only: length_decimal_small digits_value_digit)
  next
    case False
    with 1 have ih: "digits_value 0 (decimal (n div 10)) = n div 10" by simp
    have dv: "digits_value (n div 10) [digit_char (n mod 10)] = n div 10 * 10 + n mod 10"
      by (rule digits_value_digit) simp
    have "decimal n = decimal (n div 10) @ [digit_char (n mod 10)]"
      using False by (rule decimal_step)
    then have "digits_value 0 (decimal n) =
        digits_value (digits_value 0 (decimal (n div 10))) [digit_char (n mod 10)]"
      by (simp only: digits_value_append)
    also have "\<dots> = n div 10 * 10 + n mod 10"
      by (simp only: ih dv)
    finally show ?thesis by simp
  qed
qed

lemma digits_value_zeros:
  "digits_value 0 (replicate k (CHR ''0'') @ ds) = digits_value 0 ds"
  by (induction k) auto

lemma length_decimal_two:
  "10 \<le> n \<Longrightarrow> n < 100 \<Longrightarrow> decimal n = [digit_char (n div 10), digit_char (n mod 10)]"
  by (subst decimal.simps) (simp add: length_decimal_small)

lemma length_decimal_large: "100 \<le> n \<Longrightarrow> 3 \<le> length (decimal n)"
proof -
  assume n: "100 \<le> n"
  have "2 \<le> length (decimal (n div 10))"
  proof (cases "n div 10 < 100")
    case True
    with n show ?thesis by (simp add: length_decimal_two)
  next
    case False
    then have "decimal (n div 10) = decimal (n div 10 div 10) @ [digit_char (n div 10 mod 10)]"
      by (subst decimal.simps) simp
    moreover have "1 \<le> length (decimal (n div 10 div 10))"
      using decimal_not_Nil [of "n div 10 div 10"] by (cases "decimal (n div 10 div 10)") auto
    ultimately show ?thesis by simp
  qed
  moreover from n have "decimal n = decimal (n div 10) @ [digit_char (n mod 10)]"
    by (subst decimal.simps) simp
  ultimately show ?thesis by simp
qed

lemma format_02d_two:
  assumes "0 \<le> n" "n \<le> 99"
  shows "format_02d n = [digit_char (nat n div 10), digit_char (nat n mod 10)]"
proof (cases "nat n < 10")
  case True
  with assms show ?thesis
    by (simp add: format_02d_def length_decimal_small digit_char_0)
next
  case False
  with assms have "10 \<le> nat n" "nat n < 100" by auto
  from length_decimal_two [OF this] assms show ?thesis
    by (simp add: format_02d_def)
qed

lemma format_02d_large:
  assumes "100 \<le> n"
  shows "format_02d n = decimal (nat n)"
proof -
  from assms have "100 \<le> nat n" by simp
  from length_decimal_large [OF this] assms show ?thesis
    by (simp add: format_02d_def)
qed

lemma format_02d_isdecimal: "0 \<le> n \<Longrightarrow> list_all isdecimal (format_02d n)"
  using isdecimal_digit_char [of 0] decimal_isdecimal [of "nat n"]
  by (auto simp: format_02d_def list_all_iff digit_char_0)

lemma format_02d_not_Nil: "format_02d n \<noteq> []"
  by (simp add: format_02d_def decimal_not_Nil)

lemma py_int_format_02d: "0 \<le> n \<Longrightarrow> py_int (format_02d n) = Some n"
  using py_int_decimal [OF format_02d_isdecimal format_02d_not_Nil, of n]
  by (simp add: format_02d_def digits_value_zeros digits_value_decimal)

lemma py_int_isdigit_nonneg:
  assumes "list_all isdigit s" "py_int s = Some n"
  shows "0 \<le> n"
proof (cases s)
  case Nil
  with assms show ?thesis by (simp add: py_int_Nil)
next
  case (Cons c cs)
  with assms(1) have "isdigit c" by simp
  from isdigit_facts [OF this] Cons assms(2) show ?thesis
    by (auto simp: py_int_def Let_def split: if_splits)
qed

lemma find_index_range: "find_index f format = Inr n \<Longrightarrow> n = - 1 \<or> 0 \<le> n"
proof -
  assume a: "find_index f format = Inr n"
  have "\<And>fn. list_all isdigit (take (digit_run fn) fn)"
    by (simp add: digit_run_takeWhile list_all_iff) (meson set_takeWhileD)
  then have "\<And>fn m. py_int (take (digit_run fn) fn) = Some m \<Longrightarrow> 0 \<le> m"
    using py_int_isdigit_nonneg by blast
  with a show ?thesis
    by (auto simp: find_index_def split: option.splits if_splits sum.splits)
qed

section \<open>Recognising a formatted name\<close>

lemma startswith_iff: "startswith s t \<longleftrightarrow> (\<exists>r. s = t @ r)"
  unfolding startswith_def
proof
  assume "take (length t) s = t"
  then have "s = t @ drop (length t) s" by (metis append_take_drop_id)
  then show "\<exists>r. s = t @ r" ..
next
  assume "\<exists>r. s = t @ r"
  then show "take (length t) s = t" by auto
qed

lemma is_formatted_stem:
  assumes "path_stem filepath = prefix @ r"
  shows "is_formatted filepath prefix \<longleftrightarrow> py_int r \<noteq> None"
proof -
  from assms have "startswith (path_stem filepath) prefix"
    using startswith_iff by blast
  with assms show ?thesis
    by (simp add: is_formatted_def split: option.splits)
qed



lemma is_formatted_rename_file:
  "is_formatted p prefix \<Longrightarrow> rename_file p prefix format fs = (Inr False, fs)"
  by (simp add: rename_file_def)

section \<open>Stem and suffix\<close>


lemma rfind_notin: "x \<notin> set s \<Longrightarrow> rfind s x = - 1"
  by (induction s) (auto simp: Let_def)

lemma rfind_last: "x \<notin> set rest \<Longrightarrow> rfind (ys @ x # rest) x = int (length ys)"
  by (induction ys) (auto simp: Let_def rfind_notin)

lemma rfind_split:
  "0 \<le> rfind s x \<Longrightarrow> \<exists>ys rest. s = ys @ x # rest \<and> x \<notin> set rest \<and> rfind s x = int (length ys)"
proof (induction s)
  case Nil
  then show ?case by simp
next
  case (Cons c s)
  show ?case
  proof (cases "0 \<le> rfind s x")
    case True
    from Cons.IH [OF this] obtain ys rest
      where "s = ys @ x # rest" "x \<notin> set rest" "rfind s x = int (length ys)" by blast
    then have "c # s = (c # ys) @ x # rest \<and> x \<notin> set rest \<and>
        rfind (c # s) x = int (length (c # ys))"
      by (simp add: Let_def)
    then show ?thesis by blast
  next
    case False
    with Cons.prems have c: "c = x" "rfind (c # s) x = 0"
      by (auto simp: Let_def split: if_splits)
    have "x \<notin> set s"
    proof
      assume "x \<in> set s"
      then obtain ys rest where "s = ys @ x # rest" "x \<notin> set rest"
        by (meson split_list_last)
      then have "rfind s x = int (length ys)" by (simp add: rfind_last)
      with False show False by simp
    qed
    with c have "c # s = [] @ x # s \<and> x \<notin> set s \<and> rfind (c # s) x = int (length ([]::string))"
      by simp
    then show ?thesis by blast
  qed
qed

lemma path_suffix_shape:
  assumes "path_suffix p \<noteq> []"
  shows "\<exists>rest. path_suffix p = CHR ''.'' # rest \<and> rest \<noteq> [] \<and> CHR ''.'' \<notin> set rest"
proof -
  let ?nm = "path_name p"
  let ?i = "rfind ?nm (CHR ''.'')"
  from assms have i: "0 < ?i" "?i < int (length ?nm) - 1" and suf: "path_suffix p = drop (nat ?i) ?nm"
    by (auto simp: path_suffix_def Let_def split: if_splits)
  from i(1) have "0 \<le> ?i" by simp
  from rfind_split [OF this] obtain ys rest
    where s: "?nm = ys @ CHR ''.'' # rest" "CHR ''.'' \<notin> set rest" "?i = int (length ys)"
    by blast
  from s(1,3) suf have "path_suffix p = CHR ''.'' # rest" by simp
  moreover from s(1,3) i(2) have "rest \<noteq> []" by auto
  ultimately show ?thesis using s(2) by blast
qed

lemma path_stem_new_name:
  assumes ds: "list_all isdecimal ds" "ds \<noteq> []"
    and ok: "path_suffix p \<noteq> [] \<or> CHR ''.'' \<notin> set (tl prefix)"
  shows "path_stem (Path d (prefix @ ds @ path_suffix p)) = prefix @ ds"
proof (cases "path_suffix p = []")
  case True
  have nd: "CHR ''.'' \<notin> set ds"
    using ds(1) by (auto simp: list_all_iff isdecimal_def Let_def)
  from True ok have np: "CHR ''.'' \<notin> set (tl prefix)" by simp
  have "rfind (prefix @ ds) (CHR ''.'') \<le> 0"
  proof (cases prefix)
    case Nil
    with nd show ?thesis by (simp add: rfind_notin)
  next
    case (Cons c cs)
    with np nd have "rfind (cs @ ds) (CHR ''.'') = - 1" by (simp add: rfind_notin)
    with Cons show ?thesis by (simp add: Let_def)
  qed
  with True show ?thesis by (simp add: path_stem_def Let_def)
next
  case False
  from path_suffix_shape [OF this] obtain rest
    where r: "path_suffix p = CHR ''.'' # rest" "rest \<noteq> []" "CHR ''.'' \<notin> set rest" by blast
  have "rfind ((prefix @ ds) @ CHR ''.'' # rest) (CHR ''.'') = int (length (prefix @ ds))"
    using r(3) by (rule rfind_last)
  moreover from ds(2) have "0 < int (length prefix) + int (length ds)"
    by (cases ds) auto
  ultimately show ?thesis using r(1,2) by (simp add: path_stem_def Let_def)
qed

section \<open>A format without placeholder\<close>

lemma find_index_bad_format:
  "h \<noteq> [] \<Longrightarrow> str_index h ''{}'' = None \<Longrightarrow> find_index f (Some h) = Inl (SystemExit 1)"
  by (simp add: find_index_def error_exit_def)

lemma rename_file_bad_format:
  assumes "h \<noteq> []" "str_index h ''{}'' = None" "\<not> is_formatted p prefix"
  shows "rename_file p prefix (Some h) fs = (Inl (SystemExit 1), fs)"
  using assms by (simp add: rename_file_def formatted_filename_def find_index_bad_format)

lemma copy_file_bad_format:
  assumes "h \<noteq> []" "str_index h ''{}'' = None" "\<not> is_formatted p prefix"
  shows "copy_file p dest prefix (Some h) fs = (Inl (SystemExit 1), fs)"
  using assms by (simp add: copy_file_def formatted_filename_def find_index_bad_format)

lemma rename_loop_bad_format:
  assumes "h \<noteq> []" "str_index h ''{}'' = None"
  shows "\<exists>g\<in>set files. \<not> is_formatted g prefix \<Longrightarrow>
         rename_loop files prefix (Some h) r u fs = (Inl (SystemExit 1), fs)"
proof (induction files arbitrary: u)
  case Nil
  then show ?case by simp
next
  case (Cons f files)
  show ?case
  proof (cases "is_formatted f prefix")
    case True
    with Cons.prems have "\<exists>g\<in>set files. \<not> is_formatted g prefix" by auto
    from Cons.IH [OF this] True show ?thesis by (simp add: is_formatted_rename_file)
  next
    case False
    with assms show ?thesis by (simp add: rename_file_bad_format)
  qed
qed

lemma rename_loop_all_formatted:
  "\<forall>g\<in>set files. is_formatted g prefix \<Longrightarrow>
     rename_loop files prefix format r u fs = (Inr (r, u + length files, r + u + length files), fs)"
  by (induction files arbitrary: u) (simp_all add: is_formatted_rename_file)

text \<open>Copying a file to a path that does not exist keeps every entry that was there.\<close>

lemma shutil_copy_keeps:
  assumes "map_of fs p = Some (File c)" "\<not> path_exists fs q"
  shows "\<exists>fs'. shutil_copy fs p q = Inr fs' \<and> (\<forall>g. map_of fs g \<noteq> None \<longrightarrow> map_of fs' g = map_of fs g)"
proof -
  from assms(2) have "q \<notin> fst ` set fs"
    by (simp add: path_exists_def map_of_eq_None_iff)
  then have "filter (\<lambda>(k, v). k \<noteq> q) fs = fs"
    by (force simp: filter_id_conv)
  with assms(1) have "shutil_copy fs p q = Inr (fs @ [(q, File c)])"
    by (simp add: shutil_copy_def)
  moreover have "\<forall>g. map_of fs g \<noteq> None \<longrightarrow> map_of (fs @ [(q, File c)]) g = map_of fs g"
    by (auto simp: map_add_def split: option.splits)
  ultimately show ?thesis by blast
qed

lemma copy_file_formatted:
  assumes "is_formatted p prefix" "map_of fs p = Some (File c)"
  shows "\<exists>b fs'. copy_file p dest prefix format fs = (Inr b, fs') \<and>
           (\<forall>g. map_of fs g \<noteq> None \<longrightarrow> map_of fs' g = map_of fs g)"
proof (cases "path_exists fs (joinpath dest (path_name p))")
  case True
  with assms(1) have "copy_file p dest prefix format fs = (Inr False, fs)"
    by (simp add: copy_file_def)
  then show ?thesis by blast
next
  case False
  from shutil_copy_keeps [OF assms(2) False] obtain fs'
    where sc: "shutil_copy fs p (joinpath dest (path_name p)) = Inr fs'"
      and keep: "\<forall>g. map_of fs g \<noteq> None \<longrightarrow> map_of fs' g = map_of fs g" by blast
  from sc assms(1) False have "copy_file p dest prefix format fs = (Inr True, fs')"
    by (simp add: copy_file_def)
  with keep show ?thesis by blast
qed

lemma copy_loop_bad_format:
  assumes "h \<noteq> []" "str_index h ''{}'' = None"
  shows "\<exists>g\<in>set files. \<not> is_formatted g prefix \<Longrightarrow>
         \<forall>g\<in>set files. \<exists>c. map_of fs g = Some (File c) \<Longrightarrow>
         fst (copy_loop files dest prefix (Some h) r u fs) = Inl (SystemExit 1)"
proof (induction files arbitrary: r u fs)
  case Nil
  then show ?case by simp
next
  case (Cons f files)
  show ?case
  proof (cases "is_formatted f prefix")
    case False
    with assms show ?thesis by (simp add: copy_file_bad_format)
  next
    case True
    from Cons.prems(2) obtain c where "map_of fs f = Some (File c)" by auto
    from copy_file_formatted [OF True this] obtain b fs'
      where cf: "copy_file f dest prefix (Some h) fs = (Inr b, fs')"
        and keep: "\<forall>g. map_of fs g \<noteq> None \<longrightarrow> map_of fs' g = map_of fs g" by blast
    from True Cons.prems(1) have ex: "\<exists>g\<in>set files. \<not> is_formatted g prefix" by auto
    have inv: "\<forall>g\<in>set files. \<exists>c. map_of fs' g = Some (File c)"
      using Cons.prems(2) keep by auto
    from Cons.IH [OF ex inv] cf show ?thesis by simp
  qed
qed

lemma copy_loop_all_formatted:
  "\<forall>g\<in>set files. is_formatted g prefix \<Longrightarrow>
   \<forall>g\<in>set files. \<exists>c. map_of fs g = Some (File c) \<Longrightarrow>
   \<exists>t. fst (copy_loop files dest prefix format r u fs) = Inr t"
proof (induction files arbitrary: r u fs)
  case Nil
  then show ?case by simp
next
  case (Cons f files)
  from Cons.prems obtain c where f: "is_formatted f prefix" "map_of fs f = Some (File c)"
    by auto
  from copy_file_formatted [OF f] obtain b fs'
    where cf: "copy_file f dest prefix format fs = (Inr b, fs')"
      and keep: "\<forall>g. map_of fs g \<noteq> None \<longrightarrow> map_of fs' g = map_of fs g" by blast
  have all: "\<forall>g\<in>set files. is_formatted g prefix" using Cons.prems(1) by simp
  have inv: "\<forall>g\<in>set files. \<exists>c. map_of fs' g = Some (File c)"
    using Cons.prems(2) keep by auto
  from Cons.IH [OF all inv] cf show ?case by simp
qed

lemma to_process_files: "g \<in> set (to_process fs d) \<Longrightarrow> \<exists>c. map_of fs g = Some (File c)"
proof -
  assume "g \<in> set (to_process fs d)"
  then have "g \<in> fst ` set fs" "\<not> is_dir fs g"
    by (auto simp: to_process_def iterdir_def)
  then obtain n where "map_of fs g = Some n" "n \<noteq> Dir"
    by (cases "map_of fs g") (auto simp: is_dir_def map_of_eq_None_iff)
  then show ?thesis by (cases n) auto
qed

lemma shutil_copy_state:
  assumes "map_of fs p = Some (File c)" "\<not> path_exists fs q"
  shows "shutil_copy fs p q = Inr (fs @ [(q, File c)])"
proof -
  from assms(2) have "q \<notin> fst ` set fs"
    by (simp add: path_exists_def map_of_eq_None_iff)
  then have "filter (\<lambda>(k, v). k \<noteq> q) fs = fs"
    by (force simp: filter_id_conv)
  with assms(1) show ?thesis by (simp add: shutil_copy_def)
qed

text \<open>What one copy of an already formatted file does to the file system.\<close>

lemma copy_file_formatted_state:
  assumes "is_formatted p prefix" "map_of fs p = Some (File c)"
  shows "\<exists>b fs'. copy_file p dest prefix format fs = (Inr b, fs') \<and>
           (\<forall>g. map_of fs g \<noteq> None \<longrightarrow> map_of fs' g = map_of fs g) \<and>
           (\<forall>g. map_of fs' g \<noteq> None \<longrightarrow>
                 map_of fs g \<noteq> None \<or> g = joinpath dest (path_name p)) \<and>
           (map_of fs (joinpath dest (path_name p)) = None \<longrightarrow>
              map_of fs' (joinpath dest (path_name p)) = map_of fs p)"
proof (cases "path_exists fs (joinpath dest (path_name p))")
  case True
  with assms(1) have cf: "copy_file p dest prefix format fs = (Inr False, fs)"
    by (simp add: copy_file_def)
  from True have ex: "map_of fs (joinpath dest (path_name p)) \<noteq> None"
    by (simp add: path_exists_def)
  have "copy_file p dest prefix format fs = (Inr False, fs) \<and>
           (\<forall>g. map_of fs g \<noteq> None \<longrightarrow> map_of fs g = map_of fs g) \<and>
           (\<forall>g. map_of fs g \<noteq> None \<longrightarrow>
                 map_of fs g \<noteq> None \<or> g = joinpath dest (path_name p)) \<and>
           (map_of fs (joinpath dest (path_name p)) = None \<longrightarrow>
              map_of fs (joinpath dest (path_name p)) = map_of fs p)"
    using cf ex by auto
  then show ?thesis by (intro exI)
next
  case False
  let ?q = "joinpath dest (path_name p)"
  let ?fs' = "fs @ [(?q, File c)]"
  from shutil_copy_state [OF assms(2) False] assms(1) False
  have cf: "copy_file p dest prefix format fs = (Inr True, ?fs')"
    by (simp add: copy_file_def)
  have keep: "\<forall>g. map_of fs g \<noteq> None \<longrightarrow> map_of ?fs' g = map_of fs g"
    by (auto simp: map_add_def split: option.splits)
  have new: "\<forall>g. map_of ?fs' g \<noteq> None \<longrightarrow> map_of fs g \<noteq> None \<or> g = ?q"
    by (auto simp: map_add_def split: option.splits if_splits)
  have tgt: "map_of fs ?q = None \<longrightarrow> map_of ?fs' ?q = map_of fs p"
    using assms(2) by (auto simp: map_add_def split: option.splits)
  show ?thesis
    by (intro exI conjI) (rule cf, rule keep, rule new, rule tgt)
qed

lemma copy_loop_formatted_state:
  "\<forall>x\<in>set files. is_formatted x prefix \<Longrightarrow>
   \<forall>x\<in>set files. \<exists>c. map_of fs x = Some (File c) \<Longrightarrow>
   \<forall>x\<in>set files. path_parent x = pd \<Longrightarrow>
   \<exists>t fs'. copy_loop files dest prefix format r u fs = (Inr t, fs') \<and>
     (\<forall>g. map_of fs g \<noteq> None \<longrightarrow> map_of fs' g = map_of fs g) \<and>
     (\<forall>g. map_of fs' g \<noteq> None \<longrightarrow>
        map_of fs g \<noteq> None \<or> (\<exists>x\<in>set files. g = joinpath dest (path_name x))) \<and>
     (\<forall>x\<in>set files. map_of fs (joinpath dest (path_name x)) = None \<longrightarrow>
        map_of fs' (joinpath dest (path_name x)) = map_of fs x)"
proof (induction files arbitrary: r u fs)
  case Nil
  then show ?case by simp
next
  case (Cons f files)
  from Cons.prems obtain c where f: "is_formatted f prefix" "map_of fs f = Some (File c)"
    by auto
  let ?tf = "joinpath dest (path_name f)"
  from copy_file_formatted_state [OF f] obtain b s1
    where cf: "copy_file f dest prefix format fs = (Inr b, s1)"
      and keep1: "\<forall>g. map_of fs g \<noteq> None \<longrightarrow> map_of s1 g = map_of fs g"
      and new1: "\<forall>g. map_of s1 g \<noteq> None \<longrightarrow> map_of fs g \<noteq> None \<or> g = ?tf"
      and tgt1: "map_of fs ?tf = None \<longrightarrow> map_of s1 ?tf = map_of fs f"
    by blast
  have all: "\<forall>x\<in>set files. is_formatted x prefix" using Cons.prems(1) by simp
  have inv: "\<forall>x\<in>set files. \<exists>c. map_of s1 x = Some (File c)"
    using Cons.prems(2) keep1 by auto
  have par: "\<forall>x\<in>set files. path_parent x = pd" using Cons.prems(3) by simp
  from Cons.IH [OF all inv par, of "if b then r + 1 else r" "if b then u else u + 1"]
  obtain t s2
    where loop: "copy_loop files dest prefix format (if b then r + 1 else r)
                   (if b then u else u + 1) s1 = (Inr t, s2)"
      and keep2: "\<forall>g. map_of s1 g \<noteq> None \<longrightarrow> map_of s2 g = map_of s1 g"
      and new2: "\<forall>g. map_of s2 g \<noteq> None \<longrightarrow>
                   map_of s1 g \<noteq> None \<or> (\<exists>x\<in>set files. g = joinpath dest (path_name x))"
      and tgt2: "\<forall>x\<in>set files. map_of s1 (joinpath dest (path_name x)) = None \<longrightarrow>
                   map_of s2 (joinpath dest (path_name x)) = map_of s1 x"
    by blast
  from cf loop have res: "copy_loop (f # files) dest prefix format r u fs = (Inr t, s2)"
    by (cases b) simp_all
  have keep: "\<forall>g. map_of fs g \<noteq> None \<longrightarrow> map_of s2 g = map_of fs g"
    using keep1 keep2 by auto
  have head: "map_of fs ?tf = None \<longrightarrow> map_of s2 ?tf = map_of fs f"
    using tgt1 keep2 f(2) by auto
  have tail: "map_of fs (joinpath dest (path_name x)) = None \<longrightarrow>
                map_of s2 (joinpath dest (path_name x)) = map_of fs x"
    if x: "x \<in> set files" for x
  proof
    let ?tx = "joinpath dest (path_name x)"
    assume none: "map_of fs ?tx = None"
    from x Cons.prems(2) obtain cx where cx: "map_of fs x = Some (File cx)" by auto
    show "map_of s2 ?tx = map_of fs x"
    proof (cases "map_of s1 ?tx = None")
      case True
      with tgt2 x have "map_of s2 ?tx = map_of s1 x" by blast
      with keep1 cx show ?thesis by simp
    next
      case False
      with new1 none have "?tx = ?tf" by blast
      then have "path_name x = path_name f" by (simp add: joinpath_def)
      moreover from x Cons.prems(3) have "path_parent x = path_parent f" by simp
      ultimately have "x = f" by (simp add: path.expand)
      with head none keep2 False show ?thesis by auto
    qed
  qed
  have tgt: "\<forall>x\<in>set (f # files). map_of fs (joinpath dest (path_name x)) = None \<longrightarrow>
        map_of s2 (joinpath dest (path_name x)) = map_of fs x"
    using head tail by auto
  have new: "\<forall>g. map_of s2 g \<noteq> None \<longrightarrow>
      map_of fs g \<noteq> None \<or> (\<exists>x\<in>set (f # files). g = joinpath dest (path_name x))"
    using new1 new2 by fastforce
  show ?case
    by (intro exI conjI) (rule res, rule keep, rule new, rule tgt)
qed

lemma copy_loop_append:
  "copy_loop pre dest prefix format r u fs = (Inr (a, b, c), fs') \<Longrightarrow>
   copy_loop (pre @ rest) dest prefix format r u fs = copy_loop rest dest prefix format a b fs'"
proof (induction pre arbitrary: r u fs)
  case Nil
  then show ?case by simp
next
  case (Cons f pre)
  obtain res s1 where cf: "copy_file f dest prefix format fs = (res, s1)"
    by (cases "copy_file f dest prefix format fs")
  show ?case
  proof (cases res)
    case (Inl e)
    with Cons.prems cf show ?thesis by simp
  next
    case (Inr ok)
    with Cons.prems cf Cons.IH show ?thesis by (cases ok) simp_all
  qed
qed

lemma copy_loop_abort_state:
  assumes "h \<noteq> []" "str_index h ''{}'' = None"
    and pre: "\<forall>x\<in>set pre. is_formatted x prefix"
      "\<forall>x\<in>set pre. \<exists>c. map_of fs x = Some (File c)"
      "\<forall>x\<in>set pre. path_parent x = pd"
    and g: "\<not> is_formatted g prefix"
  shows "\<exists>t fs'. copy_loop pre dest prefix (Some h) r u fs = (Inr t, fs') \<and>
     copy_loop (pre @ g # post) dest prefix (Some h) r u fs = (Inl (SystemExit 1), fs') \<and>
     (\<forall>x. map_of fs x \<noteq> None \<longrightarrow> map_of fs' x = map_of fs x) \<and>
     (\<forall>x. map_of fs' x \<noteq> None \<longrightarrow>
        map_of fs x \<noteq> None \<or> (\<exists>y\<in>set pre. x = joinpath dest (path_name y))) \<and>
     (\<forall>x\<in>set pre. map_of fs (joinpath dest (path_name x)) = None \<longrightarrow>
        map_of fs' (joinpath dest (path_name x)) = map_of fs x)"
proof -
  from copy_loop_formatted_state [OF pre, of dest "Some h" r u] obtain t fs'
    where loop: "copy_loop pre dest prefix (Some h) r u fs = (Inr t, fs')"
      and keep: "\<forall>x. map_of fs x \<noteq> None \<longrightarrow> map_of fs' x = map_of fs x"
      and new: "\<forall>x. map_of fs' x \<noteq> None \<longrightarrow>
        map_of fs x \<noteq> None \<or> (\<exists>y\<in>set pre. x = joinpath dest (path_name y))"
      and tgt: "\<forall>x\<in>set pre. map_of fs (joinpath dest (path_name x)) = None \<longrightarrow>
        map_of fs' (joinpath dest (path_name x)) = map_of fs x"
    by blast
  obtain a b c where t: "t = (a, b, c)" by (cases t)
  from loop t have "copy_loop (pre @ g # post) dest prefix (Some h) r u fs =
      copy_loop (g # post) dest prefix (Some h) a b fs'"
    by (simp add: copy_loop_append)
  also have "\<dots> = (Inl (SystemExit 1), fs')"
    using assms(1,2) g by (simp add: copy_file_bad_format)
  finally have abort: "copy_loop (pre @ g # post) dest prefix (Some h) r u fs =
      (Inl (SystemExit 1), fs')" .
  show ?thesis
    by (intro exI conjI) (rule loop, rule abort, rule keep, rule new, rule tgt)
qed

lemma to_process_parent: "x \<in> set (to_process fs d) \<Longrightarrow> path_parent x = path_str d"
  by (auto simp: to_process_def iterdir_def)

section \<open>Counting in the bulk operations\<close>

lemma rename_loop_counts:
  "rename_loop fs prefix format r u s = (Inr (a, b, c), s') \<Longrightarrow>
     a + b = c \<and> c = r + u + length fs"
proof (induction fs arbitrary: r u s)
  case Nil
  then show ?case by simp
next
  case (Cons f fs)
  obtain res s1 where rf: "rename_file f prefix format s = (res, s1)"
    by (cases "rename_file f prefix format s")
  show ?case
  proof (cases res)
    case (Inl e)
    with Cons.prems rf show ?thesis by simp
  next
    case (Inr ok)
    show ?thesis
    proof (cases ok)
      case True
      with Cons.prems rf Inr
      have "rename_loop fs prefix format (r + 1) u s1 = (Inr (a, b, c), s')" by simp
      from Cons.IH [OF this] show ?thesis by simp
    next
      case False
      with Cons.prems rf Inr
      have "rename_loop fs prefix format r (u + 1) s1 = (Inr (a, b, c), s')" by simp
      from Cons.IH [OF this] show ?thesis by simp
    qed
  qed
qed

lemma copy_loop_counts:
  "copy_loop fs dest prefix format r u s = (Inr (a, b, c), s') \<Longrightarrow>
     a + b = c \<and> c = r + u + length fs"
proof (induction fs arbitrary: r u s)
  case Nil
  then show ?case by simp
next
  case (Cons f fs)
  obtain res s1 where cf: "copy_file f dest prefix format s = (res, s1)"
    by (cases "copy_file f dest prefix format s")
  show ?case
  proof (cases res)
    case (Inl e)
    with Cons.prems cf show ?thesis by simp
  next
    case (Inr ok)
    show ?thesis
    proof (cases ok)
      case True
      with Cons.prems cf Inr
      have "copy_loop fs dest prefix format (r + 1) u s1 = (Inr (a, b, c), s')" by simp
      from Cons.IH [OF this] show ?thesis by simp
    next
      case False
      with Cons.prems cf Inr
      have "copy_loop fs dest prefix format r (u + 1) s1 = (Inr (a, b, c), s')" by simp
      from Cons.IH [OF this] show ?thesis by simp
    qed
  qed
qed

text \<open>
  C7. Whenever a bulk operation returns its triple, the first two counts add up to the
  third, and the third is the number of candidates that \<open>to_process\<close> listed for the
  directory; this holds for the bulk rename and for the bulk copy.
\<close>

theorem bulk_counts:
  "(rename_all_files_in_dir d prefix format fs = (Inr (a, b, c), fs') \<longrightarrow>
      a + b = c \<and> c = length (to_process fs d)) \<and>
   (copy_all_files_in_dir d dest prefix format fs = (Inr (a', b', c'), fs'') \<longrightarrow>
      a' + b' = c' \<and> c' = length (to_process fs d))"
  using rename_loop_counts [of "to_process fs d" prefix format 0 0 fs a b c fs']
    copy_loop_counts [of "to_process fs d" dest prefix format 0 0 fs a' b' c' fs'']
  by (simp add: rename_all_files_in_dir_def copy_all_files_in_dir_def)

theorem bulk_counts_witness:
  "rename_all_files_in_dir (Path [] ''s'') ''photo'' None scan_dir =
     (Inr (2, 1, 3),
      [(Path ''/s'' ''photo03.png'', File ''a''), (Path ''/s'' ''photo07.png'', File ''b''),
       (Path ''/s'' ''notes.txt'', File ''c''), (Path ''/s'' ''.hidden'', File ''d''),
       (Path ''/s'' ''sub'', Dir)]) \<and>
   copy_all_files_in_dir (Path [] ''s'') (Path [] ''t'') ''photo'' None scan_dir =
     (Inr (2, 1, 3),
      scan_dir @
      [(Path ''/t'' ''photo03.png'', File ''a''), (Path ''/t'' ''photo07.png'', File ''b'')]) \<and>
   (2::nat) + 1 = 3 \<and> 3 = length (to_process scan_dir (Path [] ''s''))"
proof -
  have r: "rename_all_files_in_dir (Path [] ''s'') ''photo'' None scan_dir =
     (Inr (2, 1, 3),
      [(Path ''/s'' ''photo03.png'', File ''a''), (Path ''/s'' ''photo07.png'', File ''b''),
       (Path ''/s'' ''notes.txt'', File ''c''), (Path ''/s'' ''.hidden'', File ''d''),
       (Path ''/s'' ''sub'', Dir)])"
    by code_simp
  have c: "copy_all_files_in_dir (Path [] ''s'') (Path [] ''t'') ''photo'' None scan_dir =
     (Inr (2, 1, 3),
      scan_dir @
      [(Path ''/t'' ''photo03.png'', File ''a''), (Path ''/t'' ''photo07.png'', File ''b'')])"
    by code_simp
  from r c bulk_counts [of "Path [] ''s''" "''photo''" None scan_dir 2 1 3 _ "Path [] ''t''" 2 1 3]
  have "(2::nat) + 1 = 3 \<and> 3 = length (to_process scan_dir (Path [] ''s''))" by blast
  with r c show ?thesis by blast
qed

section \<open>The format scenario\<close>

text \<open>
  C2, as stated: with the format \<open>scan_{}.jpg\<close> and the prefix \<open>p\<close>, the file name
  \<open>99scan_042.jpg\<close> would give the index 42 and the target name \<open>p42.jpg\<close>. It does
  not: the placeholder stands at offset 5, and the name from offset 5 on is
  \<open>n_042.jpg\<close>, which does not begin with a digit.
\<close>

theorem hint_scenario_counterexample:
  "\<not> (find_index ''99scan_042.jpg'' (Some ''scan_{}.jpg'') = Inr 42 \<and>
      formatted_filename (Path ''dir'' ''99scan_042.jpg'') ''p'' (Some ''scan_{}.jpg'')
        = Inr ''p42.jpg'')"
  by code_simp

text \<open>
  C2, amended: with the format \<open>scan_{}.jpg\<close> the file name \<open>99scan_042.jpg\<close> gives
  the sentinel -1 and the empty name; the index 42 and the target name \<open>p42.jpg\<close> are
  what the format \<open>99scan_{}.jpg\<close>, whose placeholder stands at offset 7, gives.
\<close>

theorem hint_scenario:
  "find_index ''99scan_042.jpg'' (Some ''scan_{}.jpg'') = Inr (- 1) \<and>
   formatted_filename (Path d ''99scan_042.jpg'') ''p'' (Some ''scan_{}.jpg'') = Inr [] \<and>
   find_index ''99scan_042.jpg'' (Some ''99scan_{}.jpg'') = Inr 42 \<and>
   formatted_filename (Path d ''99scan_042.jpg'') ''p'' (Some ''99scan_{}.jpg'')
     = Inr ''p42.jpg''"
proof -
  have a: "find_index ''99scan_042.jpg'' (Some ''scan_{}.jpg'') = Inr (- 1)" by code_simp
  have b: "find_index ''99scan_042.jpg'' (Some ''99scan_{}.jpg'') = Inr 42" by code_simp
  have s: "path_suffix (Path d ''99scan_042.jpg'') = ''.jpg''"
    by (simp add: path_suffix_def)
  have f: "format_02d 42 = ''42''" by code_simp
  show ?thesis using a b s f by (simp add: formatted_filename_def)
qed

section \<open>Copying does not overwrite\<close>

text \<open>
  C6. When the target name of a source file is computed (its own name if it is already
  formatted, the formatted name otherwise) and the destination directory already has
  an entry under that name, \<open>copy_file\<close> returns False and leaves the file system as it
  was, and the bulk copy counts the file as not copied and goes on.
\<close>

theorem copy_never_overwrites:
  assumes "(if \<not> is_formatted src prefix then formatted_filename src prefix format
            else Inr (path_name src)) = Inr nm"
    and "path_exists fs (joinpath dest nm)"
  shows "copy_file src dest prefix format fs = (Inr False, fs) \<and>
         copy_loop (src # rest) dest prefix format copied uncopied fs =
           copy_loop rest dest prefix format copied (uncopied + 1) fs"
proof -
  from assms have "copy_file src dest prefix format fs = (Inr False, fs)"
    unfolding copy_file_def by simp
  then show ?thesis by simp
qed

theorem copy_never_overwrites_witness:
  "(if \<not> is_formatted (Path ''/s'' ''img7.png'') ''photo''
    then formatted_filename (Path ''/s'' ''img7.png'') ''photo'' None
    else Inr (path_name (Path ''/s'' ''img7.png''))) = Inr ''photo07.png'' \<and>
   path_exists taken_dir (joinpath (Path [] ''t'') ''photo07.png'') \<and>
   copy_file (Path ''/s'' ''img7.png'') (Path [] ''t'') ''photo'' None taken_dir
     = (Inr False, taken_dir) \<and>
   map_of taken_dir (Path ''/t'' ''photo07.png'') = Some (File ''old'')"
proof -
  have h1: "(if \<not> is_formatted (Path ''/s'' ''img7.png'') ''photo''
    then formatted_filename (Path ''/s'' ''img7.png'') ''photo'' None
    else Inr (path_name (Path ''/s'' ''img7.png''))) = Inr ''photo07.png''"
    by code_simp
  have h2: "path_exists taken_dir (joinpath (Path [] ''t'') ''photo07.png'')"
    by code_simp
  have h3: "map_of taken_dir (Path ''/t'' ''photo07.png'') = Some (File ''old'')"
    by code_simp
  from copy_never_overwrites [OF h1 h2, of "[]" 0 0]
  have "copy_file (Path ''/s'' ''img7.png'') (Path [] ''t'') ''photo'' None taken_dir
     = (Inr False, taken_dir)" by blast
  with h1 h2 h3 show ?thesis by blast
qed

section \<open>The rendered name\<close>

text \<open>
  C8. When \<open>find_index\<close> extracts an index \<open>n\<close> (a result other than the sentinel),
  \<open>n\<close> is not negative and \<open>formatted_filename\<close> returns the prefix, the rendering of
  \<open>n\<close> and the suffix of the file. For \<open>n\<close> up to 99 the rendering is exactly the two
  digits \<open>n div 10\<close> and \<open>n mod 10\<close>; from 100 on it is the decimal numeral of \<open>n\<close>,
  three characters or more. In both cases it consists of ASCII digits and reads back
  as \<open>n\<close>, so no digit is lost.
\<close>

theorem formatted_filename_rendering:
  assumes "find_index (path_name p) format = Inr n" and "n \<noteq> - 1"
  shows "0 \<le> n \<and>
    formatted_filename p prefix format = Inr (prefix @ format_02d n @ path_suffix p) \<and>
    (n \<le> 99 \<longrightarrow> format_02d n = [digit_char (nat n div 10), digit_char (nat n mod 10)]) \<and>
    (100 \<le> n \<longrightarrow> format_02d n = decimal (nat n) \<and> 3 \<le> length (format_02d n)) \<and>
    list_all isdecimal (format_02d n) \<and> py_int (format_02d n) = Some n"
proof -
  from find_index_range [OF assms(1)] assms(2) have n: "0 \<le> n" by simp
  have f: "formatted_filename p prefix format = Inr (prefix @ format_02d n @ path_suffix p)"
    using assms by (simp add: formatted_filename_def)
  have two: "n \<le> 99 \<longrightarrow> format_02d n = [digit_char (nat n div 10), digit_char (nat n mod 10)]"
    using n format_02d_two by blast
  have large: "100 \<le> n \<longrightarrow> format_02d n = decimal (nat n) \<and> 3 \<le> length (format_02d n)"
    using format_02d_large [of n] length_decimal_large [of "nat n"] by auto
  from n f two large format_02d_isdecimal [OF n] py_int_format_02d [OF n]
  show ?thesis by blast
qed

theorem formatted_filename_rendering_witness:
  "find_index (path_name (Path ''/s'' ''img7.png'')) None = Inr 7 \<and> (7::int) \<noteq> - 1 \<and>
   formatted_filename (Path ''/s'' ''img7.png'') ''photo'' None = Inr ''photo07.png'' \<and>
   format_02d 7 = ''07'' \<and>
   find_index (path_name (Path ''/s'' ''page_1234.png'')) None = Inr 1234 \<and>
   formatted_filename (Path ''/s'' ''page_1234.png'') ''photo'' None = Inr ''photo1234.png'' \<and>
   format_02d 1234 = ''1234''"
proof -
  have a: "find_index (path_name (Path ''/s'' ''img7.png'')) None = Inr 7" by code_simp
  have b: "find_index (path_name (Path ''/s'' ''page_1234.png'')) None = Inr 1234" by code_simp
  have s: "path_suffix (Path ''/s'' ''img7.png'') = ''.png''"
    "path_suffix (Path ''/s'' ''page_1234.png'') = ''.png''" by code_simp+
  have d: "[digit_char (nat 7 div 10), digit_char (nat 7 mod 10)] = ''07''" by code_simp
  have e: "decimal (nat 1234) = ''1234''" by code_simp
  from formatted_filename_rendering [OF a, of "''photo''"] s d
  have "formatted_filename (Path ''/s'' ''img7.png'') ''photo'' None = Inr ''photo07.png'' \<and>
        format_02d 7 = ''07''" by simp
  moreover from formatted_filename_rendering [OF b, of "''photo''"] s e
  have "formatted_filename (Path ''/s'' ''page_1234.png'') ''photo'' None
          = Inr ''photo1234.png'' \<and> format_02d 1234 = ''1234''" by simp
  ultimately show ?thesis using a b by simp
qed

section \<open>The format and the search without a format\<close>

text \<open>
  C1, as stated: with a format whose placeholder stands at offset \<open>k\<close>, \<open>find_index\<close>
  would return what the search without a format returns on the name without its first
  \<open>k\<close> characters. It does not when that remainder begins with a character that is
  no digit: the search without a format skips it, the search with a format gives up.
\<close>

theorem find_index_hint_counterexample:
  "str_index ''{}'' ''{}'' = Some 0 \<and>
   find_index ''ab12'' (Some ''{}'') \<noteq> find_index (drop 0 ''ab12'') None"
  by code_simp

text \<open>
  C1, amended: with a format whose placeholder stands at offset \<open>k\<close>, \<open>find_index\<close>
  returns what the search without a format returns on the name without its first \<open>k\<close>
  characters whenever that remainder is empty or begins with a digit (a character that
  \<open>str.isdigit\<close> accepts); when it begins with another character the result is the
  sentinel -1.
\<close>

theorem find_index_hint:
  assumes "str_index h ''{}'' = Some k"
  shows "find_index f (Some h) =
           (case drop k f of
              [] \<Rightarrow> find_index (drop k f) None
            | c # cs \<Rightarrow> if isdigit c then find_index (drop k f) None else Inr (- 1))"
proof -
  from assms have h: "h \<noteq> []" by (cases h) auto
  show ?thesis
  proof (cases "drop k f")
    case Nil
    with assms h show ?thesis by (simp add: find_index_def)
  next
    case (Cons c cs)
    show ?thesis
    proof (cases "isdigit c")
      case True
      with Cons assms h show ?thesis by (simp add: find_index_def)
    next
      case False
      with Cons assms h show ?thesis by (simp add: find_index_def py_int_Nil)
    qed
  qed
qed

theorem find_index_hint_witness:
  "str_index ''scan_{}.jpg'' ''{}'' = Some 5 \<and>
   find_index ''scan_042.jpg'' (Some ''scan_{}.jpg'') = Inr 42 \<and>
   find_index (drop 5 ''scan_042.jpg'') None = Inr 42 \<and>
   find_index ''99scan_042.jpg'' (Some ''scan_{}.jpg'') = Inr (- 1)"
proof -
  have k: "str_index ''scan_{}.jpg'' ''{}'' = Some 5" by code_simp
  have a: "find_index (drop 5 ''scan_042.jpg'') None = Inr 42" by code_simp
  have d: "isdigit CHR ''0''" "\<not> isdigit CHR ''n''" by code_simp+
  from find_index_hint [OF k, of "''scan_042.jpg''"] a d
  have "find_index ''scan_042.jpg'' (Some ''scan_{}.jpg'') = Inr 42" by simp
  moreover from find_index_hint [OF k, of "''99scan_042.jpg''"] d
  have "find_index ''99scan_042.jpg'' (Some ''scan_{}.jpg'') = Inr (- 1)" by simp
  ultimately show ?thesis using k a by simp
qed

section \<open>Already formatted names\<close>

text \<open>
  C4. \<open>is_formatted\<close> holds exactly when the stem is the prefix followed by a remainder
  that is not empty and that \<open>int\<close> parses as a whole.
\<close>

theorem is_formatted_iff:
  "is_formatted filepath prefix \<longleftrightarrow>
     (\<exists>r. path_stem filepath = prefix @ r \<and> r \<noteq> [] \<and> py_int r \<noteq> None)"
proof
  assume f: "is_formatted filepath prefix"
  then have "startswith (path_stem filepath) prefix"
    by (simp add: is_formatted_def split: if_splits)
  then obtain r where r: "path_stem filepath = prefix @ r"
    using startswith_iff by blast
  with f have p: "py_int r \<noteq> None" using is_formatted_stem by blast
  then have "r \<noteq> []" using py_int_Nil by auto
  with r p show "\<exists>r. path_stem filepath = prefix @ r \<and> r \<noteq> [] \<and> py_int r \<noteq> None"
    by blast
next
  assume "\<exists>r. path_stem filepath = prefix @ r \<and> r \<noteq> [] \<and> py_int r \<noteq> None"
  then show "is_formatted filepath prefix" using is_formatted_stem by blast
qed



section \<open>Digits in the extension\<close>




section \<open>Renaming twice\<close>

text \<open>
  C5 fails on the code. The file \<open>x7\<close> has no extension; with the prefix \<open>a.b\<close> it is
  renamed to \<open>a.b07\<close>. The stem of \<open>a.b07\<close> is \<open>a\<close>, since the dot of the prefix is
  taken for the dot of an extension, so \<open>is_formatted\<close> does not recognise the name,
  and a second \<open>rename_file\<close> renames the file again, to \<open>a.b07.b07\<close>.
\<close>

theorem rename_twice_dotted_prefix:
  "rename_file (Path ''/s'' ''x7'') ''a.b'' None [(Path ''/s'' ''x7'', File ''c'')]
     = (Inr True, [(Path ''/s'' ''a.b07'', File ''c'')]) \<and>
   rename_file (Path ''/s'' ''a.b07'') ''a.b'' None [(Path ''/s'' ''a.b07'', File ''c'')]
     = (Inr True, [(Path ''/s'' ''a.b07.b07'', File ''c'')])"
  by code_simp

text \<open>Apart from the dotted prefix on a name without extension, the target name is
  recognised as formatted, and a second call changes nothing.\<close>

lemma rename_file_again:
  assumes first: "rename_file p prefix format fs = (Inr True, fs')"
    and ok: "path_suffix p \<noteq> [] \<or> CHR ''.'' \<notin> set (tl prefix)"
  shows "\<exists>n. find_index (path_name p) format = Inr n \<and>
           rename_file (Path (path_parent p) (prefix @ format_02d n @ path_suffix p))
             prefix format fs' = (Inr False, fs')"
proof -
  from first obtain n where n: "find_index (path_name p) format = Inr n" "n \<noteq> - 1"
    by (auto simp: rename_file_def formatted_filename_def
        split: if_splits sum.splits)
  from find_index_range [OF n(1)] n(2) have n0: "0 \<le> n" by simp
  let ?q = "Path (path_parent p) (prefix @ format_02d n @ path_suffix p)"
  have "path_stem ?q = prefix @ format_02d n"
    using format_02d_isdecimal [OF n0] format_02d_not_Nil ok by (rule path_stem_new_name)
  moreover have "py_int (format_02d n) \<noteq> None"
    using py_int_format_02d [OF n0] by simp
  ultimately have "is_formatted ?q prefix"
    using is_formatted_stem by blast
  then have "rename_file ?q prefix format fs' = (Inr False, fs')"
    by (rule is_formatted_rename_file)
  with n(1) show ?thesis by blast
qed

section \<open>The fatal format error\<close>

text \<open>
  C3, as stated: a format that is not empty and has no placeholder would abort every
  run, with no file renamed or copied before. It does not: the format is only looked
  at when a file that is not yet formatted is reached. A directory whose files are all
  formatted is processed to the end, and the bulk copy copies the formatted files that
  come before the first other file, and aborts then.
\<close>

theorem bad_format_counterexample:
  "str_index ''abc'' ''{}'' = None \<and>
   rename_all_files_in_dir (Path [] ''s'') ''p'' (Some ''abc'') done_dir
     = (Inr (0, 1, 1), done_dir) \<and>
   copy_all_files_in_dir (Path [] ''s'') (Path [] ''t'') ''p'' (Some ''abc'') abort_dir
     = (Inl (SystemExit 1), abort_dir @ [(Path ''/t'' ''p01.jpg'', File ''A'')])"
  by code_simp

text \<open>
  C3, amended: for a format that is not empty and has no placeholder, \<open>find_index\<close>
  exits with status 1 on every file name. So \<open>rename_file\<close> and \<open>copy_file\<close> exit
  with status 1, the file system unchanged, on every file that is not already
  formatted. When a directory has a candidate that is not already formatted, the bulk
  rename exits with status 1 and has renamed nothing, and the bulk copy exits with
  status 1 after copying the already formatted candidates listed before the first such
  candidate: the file system it leaves is the one that copying those candidates
  leaves, in which every earlier entry is unchanged, every new entry is the target of
  one of those candidates, and every such target that was missing holds the contents
  of its candidate. When all candidates are already formatted, there is no abort: the
  bulk rename returns its counts with nothing renamed, and the bulk copy returns its
  counts.
\<close>

theorem bad_format_aborts:
  assumes "h \<noteq> []" and "str_index h ''{}'' = None"
  shows "find_index f (Some h) = Inl (SystemExit 1) \<and>
    (\<not> is_formatted p prefix \<longrightarrow>
       rename_file p prefix (Some h) fs = (Inl (SystemExit 1), fs) \<and>
       copy_file p dest prefix (Some h) fs = (Inl (SystemExit 1), fs)) \<and>
    ((\<exists>g\<in>set (to_process fs d). \<not> is_formatted g prefix) \<longrightarrow>
       rename_all_files_in_dir d prefix (Some h) fs = (Inl (SystemExit 1), fs) \<and>
       fst (copy_all_files_in_dir d dest prefix (Some h) fs) = Inl (SystemExit 1)) \<and>
    (to_process fs d = pre @ g # post \<and> (\<forall>x\<in>set pre. is_formatted x prefix) \<and>
       \<not> is_formatted g prefix \<longrightarrow>
       (\<exists>t fs'. copy_loop pre dest prefix (Some h) 0 0 fs = (Inr t, fs') \<and>
          copy_all_files_in_dir d dest prefix (Some h) fs = (Inl (SystemExit 1), fs') \<and>
          (\<forall>x. map_of fs x \<noteq> None \<longrightarrow> map_of fs' x = map_of fs x) \<and>
          (\<forall>x. map_of fs' x \<noteq> None \<longrightarrow>
             map_of fs x \<noteq> None \<or> (\<exists>y\<in>set pre. x = joinpath dest (path_name y))) \<and>
          (\<forall>x\<in>set pre. map_of fs (joinpath dest (path_name x)) = None \<longrightarrow>
             map_of fs' (joinpath dest (path_name x)) = map_of fs x))) \<and>
    ((\<forall>g\<in>set (to_process fs2 d2). is_formatted g prefix) \<longrightarrow>
       rename_all_files_in_dir d2 prefix (Some h) fs2 =
         (Inr (0, length (to_process fs2 d2), length (to_process fs2 d2)), fs2) \<and>
       (\<exists>t. fst (copy_all_files_in_dir d2 dest prefix (Some h) fs2) = Inr t))"
proof -
  have a: "find_index f (Some h) = Inl (SystemExit 1)"
    using assms by (rule find_index_bad_format)
  have b: "\<not> is_formatted p prefix \<longrightarrow>
       rename_file p prefix (Some h) fs = (Inl (SystemExit 1), fs) \<and>
       copy_file p dest prefix (Some h) fs = (Inl (SystemExit 1), fs)"
    using assms by (simp add: rename_file_bad_format copy_file_bad_format)
  have c: "(\<exists>g\<in>set (to_process fs d). \<not> is_formatted g prefix) \<longrightarrow>
       rename_all_files_in_dir d prefix (Some h) fs = (Inl (SystemExit 1), fs) \<and>
       fst (copy_all_files_in_dir d dest prefix (Some h) fs) = Inl (SystemExit 1)"
    using rename_loop_bad_format [OF assms, of "to_process fs d" prefix 0 0 fs]
      copy_loop_bad_format [OF assms, of "to_process fs d" prefix fs dest 0 0]
      to_process_files [of _ fs d]
    unfolding rename_all_files_in_dir_def copy_all_files_in_dir_def by blast
  have s: "to_process fs d = pre @ g # post \<and> (\<forall>x\<in>set pre. is_formatted x prefix) \<and>
       \<not> is_formatted g prefix \<longrightarrow>
       (\<exists>t fs'. copy_loop pre dest prefix (Some h) 0 0 fs = (Inr t, fs') \<and>
          copy_all_files_in_dir d dest prefix (Some h) fs = (Inl (SystemExit 1), fs') \<and>
          (\<forall>x. map_of fs x \<noteq> None \<longrightarrow> map_of fs' x = map_of fs x) \<and>
          (\<forall>x. map_of fs' x \<noteq> None \<longrightarrow>
             map_of fs x \<noteq> None \<or> (\<exists>y\<in>set pre. x = joinpath dest (path_name y))) \<and>
          (\<forall>x\<in>set pre. map_of fs (joinpath dest (path_name x)) = None \<longrightarrow>
             map_of fs' (joinpath dest (path_name x)) = map_of fs x))"
  proof (intro impI, elim conjE)
    assume tp: "to_process fs d = pre @ g # post"
      and fm: "\<forall>x\<in>set pre. is_formatted x prefix" and g: "\<not> is_formatted g prefix"
    have ex: "\<forall>x\<in>set pre. \<exists>c. map_of fs x = Some (File c)"
      using to_process_files [of _ fs d] tp by simp
    have pa: "\<forall>x\<in>set pre. path_parent x = path_str d"
      using to_process_parent [of _ fs d] tp by simp
    from copy_loop_abort_state [OF assms fm ex pa g, of dest 0 0 post] tp
    show "\<exists>t fs'. copy_loop pre dest prefix (Some h) 0 0 fs = (Inr t, fs') \<and>
          copy_all_files_in_dir d dest prefix (Some h) fs = (Inl (SystemExit 1), fs') \<and>
          (\<forall>x. map_of fs x \<noteq> None \<longrightarrow> map_of fs' x = map_of fs x) \<and>
          (\<forall>x. map_of fs' x \<noteq> None \<longrightarrow>
             map_of fs x \<noteq> None \<or> (\<exists>y\<in>set pre. x = joinpath dest (path_name y))) \<and>
          (\<forall>x\<in>set pre. map_of fs (joinpath dest (path_name x)) = None \<longrightarrow>
             map_of fs' (joinpath dest (path_name x)) = map_of fs x)"
      by (simp only: copy_all_files_in_dir_def)
  qed
  have e: "(\<forall>g\<in>set (to_process fs2 d2). is_formatted g prefix) \<longrightarrow>
       rename_all_files_in_dir d2 prefix (Some h) fs2 =
         (Inr (0, length (to_process fs2 d2), length (to_process fs2 d2)), fs2) \<and>
       (\<exists>t. fst (copy_all_files_in_dir d2 dest prefix (Some h) fs2) = Inr t)"
    using rename_loop_all_formatted [of "to_process fs2 d2" prefix "Some h" 0 0 fs2]
      copy_loop_all_formatted [of "to_process fs2 d2" prefix fs2 dest "Some h" 0 0]
      to_process_files [of _ fs2 d2]
    unfolding rename_all_files_in_dir_def copy_all_files_in_dir_def by auto
  from a b c s e show ?thesis by (intro conjI)
qed

theorem bad_format_aborts_witness:
  "''abc'' \<noteq> [] \<and> str_index ''abc'' ''{}'' = None \<and>
   \<not> is_formatted (Path ''/s'' ''x2.jpg'') ''p'' \<and>
   list_ex (\<lambda>g. \<not> is_formatted g ''p'') (to_process abort_dir (Path [] ''s'')) \<and>
   to_process abort_dir (Path [] ''s'') = [Path ''/s'' ''p01.jpg''] @ Path ''/s'' ''x2.jpg'' # [] \<and>
   list_all (\<lambda>g. is_formatted g ''p'') [Path ''/s'' ''p01.jpg''] \<and>
   list_all (\<lambda>g. is_formatted g ''p'') (to_process done_dir (Path [] ''s'')) \<and>
   find_index ''x2.jpg'' (Some ''abc'') = Inl (SystemExit 1) \<and>
   rename_file (Path ''/s'' ''x2.jpg'') ''p'' (Some ''abc'') abort_dir
     = (Inl (SystemExit 1), abort_dir) \<and>
   copy_file (Path ''/s'' ''x2.jpg'') (Path [] ''t'') ''p'' (Some ''abc'') abort_dir
     = (Inl (SystemExit 1), abort_dir) \<and>
   rename_all_files_in_dir (Path [] ''s'') ''p'' (Some ''abc'') abort_dir
     = (Inl (SystemExit 1), abort_dir) \<and>
   copy_all_files_in_dir (Path [] ''s'') (Path [] ''t'') ''p'' (Some ''abc'') abort_dir
     = (Inl (SystemExit 1), abort_dir @ [(Path ''/t'' ''p01.jpg'', File ''A'')]) \<and>
   rename_all_files_in_dir (Path [] ''s'') ''p'' (Some ''abc'') done_dir
     = (Inr (0, length (to_process done_dir (Path [] ''s'')),
             length (to_process done_dir (Path [] ''s''))), done_dir)"
proof -
  have h1: "''abc'' \<noteq> []" by simp
  have h2: "str_index ''abc'' ''{}'' = None" by code_simp
  have h3: "\<not> is_formatted (Path ''/s'' ''x2.jpg'') ''p''" by code_simp
  have h4: "list_ex (\<lambda>g. \<not> is_formatted g ''p'') (to_process abort_dir (Path [] ''s''))"
    by code_simp
  have h5: "list_all (\<lambda>g. is_formatted g ''p'') (to_process done_dir (Path [] ''s''))"
    by code_simp
  have h6: "to_process abort_dir (Path [] ''s'') =
      [Path ''/s'' ''p01.jpg''] @ Path ''/s'' ''x2.jpg'' # []"
    by code_simp
  have h7: "list_all (\<lambda>g. is_formatted g ''p'') [Path ''/s'' ''p01.jpg'']" by code_simp
  have l: "copy_loop [Path ''/s'' ''p01.jpg''] (Path [] ''t'') ''p'' (Some ''abc'') 0 0 abort_dir
      = (Inr (1, 0, 1), abort_dir @ [(Path ''/t'' ''p01.jpg'', File ''A'')])"
    by code_simp
  from h4 have e: "\<exists>g\<in>set (to_process abort_dir (Path [] ''s'')). \<not> is_formatted g ''p''"
    by (simp add: list_ex_iff)
  from h5 have a: "\<forall>g\<in>set (to_process done_dir (Path [] ''s'')). is_formatted g ''p''"
    by (simp add: list_all_iff)
  from h7 have b: "\<forall>x\<in>set [Path ''/s'' ''p01.jpg'']. is_formatted x ''p''"
    by (simp add: list_all_iff)
  note t = bad_format_aborts [OF h1 h2, of "''x2.jpg''" "Path ''/s'' ''x2.jpg''" "''p''"
      abort_dir "Path [] ''t''" "Path [] ''s''" "[Path ''/s'' ''p01.jpg'']"
      "Path ''/s'' ''x2.jpg''" "[]" done_dir "Path [] ''s''"]
  from t h3 e a
  have c1: "find_index ''x2.jpg'' (Some ''abc'') = Inl (SystemExit 1) \<and>
   rename_file (Path ''/s'' ''x2.jpg'') ''p'' (Some ''abc'') abort_dir
     = (Inl (SystemExit 1), abort_dir) \<and>
   copy_file (Path ''/s'' ''x2.jpg'') (Path [] ''t'') ''p'' (Some ''abc'') abort_dir
     = (Inl (SystemExit 1), abort_dir) \<and>
   rename_all_files_in_dir (Path [] ''s'') ''p'' (Some ''abc'') abort_dir
     = (Inl (SystemExit 1), abort_dir) \<and>
   rename_all_files_in_dir (Path [] ''s'') ''p'' (Some ''abc'') done_dir
     = (Inr (0, length (to_process done_dir (Path [] ''s'')),
             length (to_process done_dir (Path [] ''s''))), done_dir)"
    by blast
  from t h6 b h3
  have "\<exists>t fs'. copy_loop [Path ''/s'' ''p01.jpg''] (Path [] ''t'') ''p'' (Some ''abc'') 0 0
            abort_dir = (Inr t, fs') \<and>
          copy_all_files_in_dir (Path [] ''s'') (Path [] ''t'') ''p'' (Some ''abc'') abort_dir
            = (Inl (SystemExit 1), fs')"
    by blast
  with l have c2: "copy_all_files_in_dir (Path [] ''s'') (Path [] ''t'') ''p'' (Some ''abc'')
      abort_dir = (Inl (SystemExit 1), abort_dir @ [(Path ''/t'' ''p01.jpg'', File ''A'')])"
    by auto
  from h1 h2 h3 h4 h5 h6 h7 c1 c2 show ?thesis by (intro conjI) blast+
qed

end
